theory Spec2Isabelle
  imports Complex_Main "HOL-Library.Sublist" "HOL-Library.Multiset"
begin

section \<open>Strings and the action classifier (src/lib/utils.ts)\<close>

text \<open>
  JavaScript strings are modelled as \<^typ>\<open>string\<close> (the bytes of the UTF-8 encoding).
  \<open>String.prototype.toLowerCase\<close> is modelled on the ASCII letters: the phrases the
  program searches for are ASCII, and no byte of a multi-byte character equals an ASCII
  letter.  \<open>String.prototype.includes\<close> is contiguous-substring containment.
\<close>

definition toLowerCase_char :: "char \<Rightarrow> char" where
  "toLowerCase_char c =
     (case map_of (zip ''ABCDEFGHIJKLMNOPQRSTUVWXYZ'' ''abcdefghijklmnopqrstuvwxyz'') c of
        None \<Rightarrow> c
      | Some l \<Rightarrow> l)"

definition toLowerCase :: "string \<Rightarrow> string" where
  "toLowerCase s = map toLowerCase_char s"

definition str_includes :: "string \<Rightarrow> string \<Rightarrow> bool" where
  "str_includes s p = sublist p s"

text \<open>
  \<open>getActionPriority(action?: string)\<close>: the argument may be absent (\<open>None\<close>);
  \<open>!action\<close> is also true of the empty string.
\<close>

definition getActionPriority :: "string option \<Rightarrow> int" where
  "getActionPriority action =
     (case action of
        None \<Rightarrow> 0
      | Some a \<Rightarrow>
          if a = [] then 0
          else let normalizedAction = toLowerCase a in
            if str_includes normalizedAction ''shelter'' then 3
            else if str_includes normalizedAction ''leave immediately'' then 2
            else if str_includes normalizedAction ''leave'' then 1
            else 0)"

text \<open>
  Template literals print a number in decimal: \<open>Date.now()\<close> in an alert id and
  \<open>response.status\<close> in an error message.
\<close>

function decimal :: "nat \<Rightarrow> string" where
  "decimal n =
     (if n < 10 then [''0123456789'' ! n]
      else decimal (n div 10) @ [''0123456789'' ! (n mod 10)])"
  by pat_completeness auto
termination
  by (relation "measure (\<lambda>n. n)") auto

declare decimal.simps [simp del]

section \<open>The geometry kernel (geo-utils)\<close>

text \<open>
  Points are \<open>[lng, lat]\<close> pairs; a polygon is the list of its ring's vertices.
  Coordinates and distances are real numbers: the rounding of IEEE doubles is outside
  the model.
\<close>

type_synonym point = "real \<times> real"

type_synonym ring = "point list"

text \<open>
  The turf library is not part of the repository, so its two operations are
  parameters of the model.  \<open>turf_inPolygon p r\<close> is
  \<open>booleanPointInPolygon(point(p), polygon([r]))\<close> on the closed ring \<open>r\<close>, with
  \<open>None\<close> when either call throws; \<open>turf_distance\<close> is \<open>distance\<close> in kilometres.
\<close>

record turf =
  turf_inPolygon :: "point \<Rightarrow> ring \<Rightarrow> bool option"
  turf_distance :: "point \<Rightarrow> point \<Rightarrow> real"

text \<open>
  A distance in kilometres is a real number or JavaScript's \<open>Infinity\<close>.  \<open>NaN\<close> is
  left out: \<open>distanceToPolygon\<close> only keeps a value that passed \<open>dist < minDist\<close>,
  which \<open>NaN\<close> never does.
\<close>

datatype km = Km real | Infinity

fun km_less :: "km \<Rightarrow> km \<Rightarrow> bool" where
  "km_less (Km a) (Km b) = (a < b)"
| "km_less (Km a) Infinity = True"
| "km_less Infinity b = False"

fun km_le :: "km \<Rightarrow> km \<Rightarrow> bool" where
  "km_le (Km a) (Km b) = (a \<le> b)"
| "km_le a Infinity = True"
| "km_le Infinity (Km b) = False"

definition calculateDistance :: "turf \<Rightarrow> point \<Rightarrow> point \<Rightarrow> km" where
  "calculateDistance T from to = Km (turf_distance T from to)"

text \<open>
  \<open>isPointInPolygon\<close> and \<open>distanceToPolygon\<close> guard against a missing polygon
  (\<open>!polygonCoords\<close>), so the polygon argument is optional here.  The \<open>try\<close>/\<open>catch\<close>
  of \<open>isPointInPolygon\<close> turns a throw of turf into \<open>false\<close>.
\<close>

definition isPointInPolygon :: "turf \<Rightarrow> point \<Rightarrow> ring option \<Rightarrow> bool" where
  "isPointInPolygon T coords polygonCoords =
     (case polygonCoords of
        None \<Rightarrow> False
      | Some pc \<Rightarrow>
          if length pc < 3 then False
          else
            let closedCoords =
                  (if fst (pc ! 0) \<noteq> fst (pc ! (length pc - 1)) \<or>
                      snd (pc ! 0) \<noteq> snd (pc ! (length pc - 1))
                   then pc @ [pc ! 0] else pc)
            in (case turf_inPolygon T coords closedCoords of
                  None \<Rightarrow> False
                | Some b \<Rightarrow> b))"

text \<open>The body of the \<open>for\<close> loop of \<open>distanceToPolygon\<close>, at vertex \<open>v\<close>.\<close>

definition minDistStep :: "turf \<Rightarrow> point \<Rightarrow> point \<Rightarrow> km \<Rightarrow> km" where
  "minDistStep T coords v minDist =
     (let dist = calculateDistance T coords v in if km_less dist minDist then dist else minDist)"

definition distanceToPolygon :: "turf \<Rightarrow> point \<Rightarrow> ring option \<Rightarrow> km" where
  "distanceToPolygon T coords polygonCoords =
     (case polygonCoords of
        None \<Rightarrow> Infinity
      | Some pc \<Rightarrow>
          if length pc < 3 then Infinity
          else if isPointInPolygon T coords polygonCoords then Km 0
          else fold (minDistStep T coords) pc Infinity)"

section \<open>Hazards and the proximity ranking (geo-utils)\<close>

text \<open>
  Hazard identifiers have the TypeScript type \<open>string | number\<close>; \<open>===\<close> never
  identifies a string with a number.
\<close>

datatype event_id = IdStr string | IdNum int

text \<open>The fields of \<open>EmergencyEvent\<close> that the core reads.\<close>

record event =
  ev_id :: event_id
  updated :: string
  action :: "string option"
  name :: string
  location :: string
  polygon :: "ring option"

record ProximityResult =
  event :: event
  distance :: km
  isInside :: bool
  actionPriority :: int

text \<open>
  The comparator passed to \<open>sort\<close>.  Only the sign of its result matters to the sort;
  \<open>a.distance - b.distance\<close> is \<open>NaN\<close> for two infinite distances, which
  \<open>Array.prototype.sort\<close> reads as 0.
\<close>

fun km_compare :: "km \<Rightarrow> km \<Rightarrow> int" where
  "km_compare (Km a) (Km b) = (if a < b then -1 else if a = b then 0 else 1)"
| "km_compare (Km a) Infinity = -1"
| "km_compare Infinity (Km b) = 1"
| "km_compare Infinity Infinity = 0"

definition compareProximity :: "ProximityResult \<Rightarrow> ProximityResult \<Rightarrow> int" where
  "compareProximity a b =
     (if isInside a \<noteq> isInside b then (if isInside a then -1 else 1)
      else if actionPriority a \<noteq> actionPriority b then actionPriority b - actionPriority a
      else km_compare (distance a) (distance b))"

text \<open>
  \<open>Array.prototype.sort\<close> is a stable sort by the comparator; it is modelled as the
  stable insertion sort.
\<close>

fun sort_insert :: "('a \<Rightarrow> 'a \<Rightarrow> int) \<Rightarrow> 'a \<Rightarrow> 'a list \<Rightarrow> 'a list" where
  "sort_insert c x [] = [x]"
| "sort_insert c x (y # ys) = (if c x y \<le> 0 then x # y # ys else y # sort_insert c x ys)"

definition js_sort :: "('a \<Rightarrow> 'a \<Rightarrow> int) \<Rightarrow> 'a list \<Rightarrow> 'a list" where
  "js_sort c xs = foldr (sort_insert c) xs []"

text \<open>The callbacks of \<open>filter\<close> and \<open>map\<close> in \<open>calculateProximity\<close>.\<close>

definition usablePolygon :: "event \<Rightarrow> bool" where
  "usablePolygon e = (case polygon e of None \<Rightarrow> False | Some pc \<Rightarrow> length pc \<ge> 3)"

definition proximityOf :: "turf \<Rightarrow> point \<Rightarrow> event \<Rightarrow> ProximityResult" where
  "proximityOf T loc ev =
     (let inside = isPointInPolygon T loc (polygon ev);
          dist = (if inside then Km 0 else distanceToPolygon T loc (polygon ev))
      in \<lparr> event = ev, distance = dist, isInside = inside,
           actionPriority = getActionPriority (action ev) \<rparr>)"

definition calculateProximity :: "turf \<Rightarrow> point \<Rightarrow> event list \<Rightarrow> ProximityResult list" where
  "calculateProximity T loc events =
     js_sort compareProximity (map (proximityOf T loc) (filter usablePolygon events))"

definition getNearestDanger :: "turf \<Rightarrow> point \<Rightarrow> event list \<Rightarrow> ProximityResult option" where
  "getNearestDanger T loc events =
     (case calculateProximity T loc events of [] \<Rightarrow> None | r # _ \<Rightarrow> Some r)"

text \<open>
  The order the ranking is claimed to respect: inside before outside; for equal
  \<open>isInside\<close>, higher priority first; for equal \<open>isInside\<close> and priority, nearer first.
\<close>

definition rankedBefore :: "ProximityResult \<Rightarrow> ProximityResult \<Rightarrow> bool" where
  "rankedBefore a b \<longleftrightarrow>
     (isInside b \<longrightarrow> isInside a) \<and>
     (isInside a = isInside b \<longrightarrow> actionPriority b \<le> actionPriority a) \<and>
     (isInside a = isInside b \<and> actionPriority a = actionPriority b
        \<longrightarrow> km_le (distance a) (distance b))"

section \<open>Alerts and their lifecycle (src/hooks/use-alerts.ts)\<close>

datatype alert_type = Proximity | ZoneChange | NewWarning

datatype severity = Critical | Warning | Info

text \<open>
  The fixed titles of the alerts, and their messages: a message is kept as its template
  together with the values spliced into it (a distance is printed by
  \<open>formatDistance\<close> when the message is rendered).
\<close>

datatype alert_title =
    NewShelterInPlaceWarning
  | NewEvacuationWarning
  | WarningUpdated
  | YouAreInADangerZone
  | DangerZoneVeryClose
  | NewNearbyWarning

datatype alert_message =
    MsgNameLocation string string
  | MsgHasBeenUpdated string
  | MsgYouAreInside string string
  | MsgIsOnlyAway string km
  | MsgIsNowTheClosest string km

text \<open>The argument of \<open>addAlert\<close>: an alert without id, timestamp and dismissed flag.\<close>

record alert_request =
  atype :: alert_type
  severity :: severity
  title :: alert_title
  message :: alert_message
  eventId :: "event_id option"

record alert = alert_request +
  alert_id :: string
  timestamp :: nat
  dismissed :: bool

definition AUTO_DISMISS_INFO :: nat where
  "AUTO_DISMISS_INFO = 30000"

definition AUTO_DISMISS_WARNING :: nat where
  "AUTO_DISMISS_WARNING = 60000"

text \<open>
  The state of the hook's alert list: the list itself, and the auto-dismiss callbacks
  that \<open>setTimeout\<close> holds, each with its delay in milliseconds and the id it targets.
\<close>

record alerts_state =
  activeAlerts :: "alert list"
  timers :: "(nat \<times> string) list"

definition no_alerts :: alerts_state where
  "no_alerts = \<lparr> activeAlerts = [], timers = [] \<rparr>"

text \<open>
  \<open>dismissAlert\<close>: the state update \<open>prev.map(a => a.id === id ? {...a, dismissed: true} : a)\<close>.
\<close>

definition dismissAlert :: "string \<Rightarrow> alert list \<Rightarrow> alert list" where
  "dismissAlert i prev = map (\<lambda>a. if alert_id a = i then a\<lparr>dismissed := True\<rparr> else a) prev"

text \<open>
  \<open>addAlert\<close> reads the clock twice (\<open>now1\<close> for the id, \<open>now2\<close> for the timestamp)
  and draws a random suffix \<open>rnd\<close>, the value of
  \<open>Math.random().toString(36).slice(2, 9)\<close>; the three are inputs of the model.
\<close>

definition new_alert_id :: "nat \<Rightarrow> string \<Rightarrow> string" where
  "new_alert_id now rnd = decimal now @ ''-'' @ rnd"

definition addAlert ::
  "nat \<Rightarrow> string \<Rightarrow> nat \<Rightarrow> alert_request \<Rightarrow> alerts_state \<Rightarrow> alert \<times> alerts_state" where
  "addAlert now1 rnd now2 req s =
     (let newAlert =
            \<lparr> atype = atype req, severity = severity req, title = title req,
              message = message req, eventId = eventId req,
              alert_id = new_alert_id now1 rnd, timestamp = now2, dismissed = False \<rparr>
      in (newAlert,
          \<lparr> activeAlerts = take 50 (newAlert # activeAlerts s),
            timers =
              (if severity req \<noteq> Critical then
                 let timeout = (if severity req = Warning then AUTO_DISMISS_WARNING
                                else AUTO_DISMISS_INFO)
                 in timers s @ [(timeout, alert_id newAlert)]
               else timers s) \<rparr>))"

text \<open>
  The \<open>k\<close>-th pending auto-dismiss callback runs: it applies the same update as
  \<open>dismissAlert\<close> to the id it captured, and is no longer pending.
\<close>

definition timerFires :: "nat \<Rightarrow> alerts_state \<Rightarrow> alerts_state" where
  "timerFires k s =
     (if k < length (timers s) then
        \<lparr> activeAlerts = dismissAlert (snd (timers s ! k)) (activeAlerts s),
          timers = take k (timers s) @ drop (Suc k) (timers s) \<rparr>
      else s)"

definition undismissedAlerts :: "alert list \<Rightarrow> alert list" where
  "undismissedAlerts alerts = filter (\<lambda>a. \<not> dismissed a) alerts"

text \<open>
  What can happen to the alert list: an alert is added, a pending callback runs (in any
  order), or the consumer dismisses an id.
\<close>

datatype alert_op =
    Add nat string nat alert_request
  | TimerFires nat
  | Dismiss string

fun alert_step :: "alerts_state \<Rightarrow> alert_op \<Rightarrow> alerts_state" where
  "alert_step s (Add now1 rnd now2 req) = snd (addAlert now1 rnd now2 req s)"
| "alert_step s (TimerFires k) = timerFires k s"
| "alert_step s (Dismiss i) = s\<lparr>activeAlerts := dismissAlert i (activeAlerts s)\<rparr>"

text \<open>
  An id is unused when no retained alert and no pending callback carries it; a run has
  fresh ids when every \<open>Add\<close> of it generates an id unused at that moment.
\<close>

definition id_unused :: "alerts_state \<Rightarrow> string \<Rightarrow> bool" where
  "id_unused s i \<longleftrightarrow>
     (\<forall>a \<in> set (activeAlerts s). alert_id a \<noteq> i) \<and> (\<forall>t \<in> set (timers s). snd t \<noteq> i)"

fun ids_fresh :: "alerts_state \<Rightarrow> alert_op list \<Rightarrow> bool" where
  "ids_fresh s [] = True"
| "ids_fresh s (Add now1 rnd now2 req # ops) =
     (id_unused s (new_alert_id now1 rnd) \<and>
      ids_fresh (alert_step s (Add now1 rnd now2 req)) ops)"
| "ids_fresh s (op # ops) = ids_fresh (alert_step s op) ops"

definition timers_spare_critical :: "alerts_state \<Rightarrow> bool" where
  "timers_spare_critical s \<longleftrightarrow>
     (\<forall>a \<in> set (activeAlerts s). \<forall>t \<in> set (timers s).
        severity a = Critical \<longrightarrow> alert_id a \<noteq> snd t)"

definition alerts_inv :: "alerts_state \<Rightarrow> bool" where
  "alerts_inv s \<longleftrightarrow>
     timers_spare_critical s \<and> distinct (map alert_id (activeAlerts s)) \<and>
     length (activeAlerts s) \<le> 50"

section \<open>The alert engine (src/hooks/use-alerts.ts)\<close>

definition DANGER_THRESHOLD :: real where
  "DANGER_THRESHOLD = 5"

definition CRITICAL_THRESHOLD :: real where
  "CRITICAL_THRESHOLD = 2"

text \<open>
  The two refs of the hook: \<open>previousEventsRef\<close>, a \<open>Map\<close> from hazard id to the
  last seen \<open>updated\<close> stamp, and \<open>previousNearestRef\<close>, the last nearest result or
  \<open>null\<close>.
\<close>

record snapshot =
  prev_eventId :: event_id
  prev_distance :: km
  prev_isInside :: bool

record engine_memory =
  previousEventsRef :: "event_id \<rightharpoonup> string"
  previousNearestRef :: "snapshot option"

definition snapshotOf :: "ProximityResult \<Rightarrow> snapshot" where
  "snapshotOf r =
     \<lparr> prev_eventId = ev_id (event r), prev_distance = distance r, prev_isInside = isInside r \<rparr>"

text \<open>
  The one-time initialization effect: on the first non-empty event list it stores every
  event's stamp and, with a location, the nearest result, and sets
  \<open>hasInitializedRef\<close>; \<open>isReady\<close> becomes true 500 ms later.  It returns the flag
  and the memory.
\<close>

definition initializationEffect ::
  "turf \<Rightarrow> point option \<Rightarrow> event list \<Rightarrow> bool \<Rightarrow> engine_memory \<Rightarrow> bool \<times> engine_memory" where
  "initializationEffect T userLocation events hasInitialized mem =
     (if hasInitialized \<or> events = [] then (hasInitialized, mem)
      else
        (True,
         \<lparr> previousEventsRef =
             fold (\<lambda>ev m. m(ev_id ev \<mapsto> updated ev)) events (previousEventsRef mem),
           previousNearestRef =
             (case userLocation of
                None \<Rightarrow> previousNearestRef mem
              | Some loc \<Rightarrow>
                  (case getNearestDanger T loc events of
                     None \<Rightarrow> previousNearestRef mem
                   | Some nearestDanger \<Rightarrow>
                       Some \<lparr> prev_eventId = ev_id (event nearestDanger),
                              prev_distance = distance nearestDanger,
                              prev_isInside = isInside nearestDanger \<rparr>)) \<rparr>))"

text \<open>
  The body of \<open>events.forEach\<close> in the change-detection effect, for one event: the
  alerts it hands to \<open>addAlert\<close> and the updated map.  \<open>!prevUpdated\<close> holds for a
  missing entry and for a stored empty string.
\<close>

definition checkEvent ::
  "(event_id \<rightharpoonup> string) \<Rightarrow> event \<Rightarrow> alert_request list \<times> (event_id \<rightharpoonup> string)" where
  "checkEvent previousEvents ev =
     (let prevUpdated = previousEvents (ev_id ev);
          currentUpdated = updated ev;
          alerts =
            (if prevUpdated = None \<or> prevUpdated = Some [] then
               (let act = (case action ev of None \<Rightarrow> [] | Some a \<Rightarrow> toLowerCase a) in
                if str_includes act ''shelter'' \<or> str_includes act ''leave'' then
                  [\<lparr> atype = NewWarning,
                     severity = (if str_includes act ''shelter'' then Critical else Warning),
                     title = (if str_includes act ''shelter''
                              then NewShelterInPlaceWarning else NewEvacuationWarning),
                     message = MsgNameLocation (name ev) (location ev),
                     eventId = Some (ev_id ev) \<rparr>]
                else [])
             else if prevUpdated \<noteq> Some currentUpdated then
               [\<lparr> atype = ZoneChange, severity = Info, title = WarningUpdated,
                  message = MsgHasBeenUpdated (name ev), eventId = Some (ev_id ev) \<rparr>]
             else [])
      in (alerts, previousEvents(ev_id ev \<mapsto> currentUpdated)))"

fun checkEvents ::
  "(event_id \<rightharpoonup> string) \<Rightarrow> event list \<Rightarrow> alert_request list \<times> (event_id \<rightharpoonup> string)" where
  "checkEvents previousEvents [] = ([], previousEvents)"
| "checkEvents previousEvents (ev # rest) =
     (let (alerts, m) = checkEvent previousEvents ev;
          (more, m') = checkEvents m rest
      in (alerts @ more, m'))"

definition changeDetectionEffect ::
  "bool \<Rightarrow> event list \<Rightarrow> (event_id \<rightharpoonup> string) \<Rightarrow> alert_request list \<times> (event_id \<rightharpoonup> string)" where
  "changeDetectionEffect isReady events previousEvents =
     (if \<not> isReady then ([], previousEvents) else checkEvents previousEvents events)"

definition proximityEffect ::
  "turf \<Rightarrow> bool \<Rightarrow> point option \<Rightarrow> event list \<Rightarrow> snapshot option
     \<Rightarrow> alert_request list \<times> snapshot option" where
  "proximityEffect T isReady userLocation events previousNearest =
     (case userLocation of
        None \<Rightarrow> ([], previousNearest)
      | Some loc \<Rightarrow>
          if \<not> isReady \<or> events = [] then ([], previousNearest)
          else
            (case getNearestDanger T loc events of
               None \<Rightarrow> ([], previousNearest)
             | Some nearestDanger \<Rightarrow>
                 let prev = previousNearest;
                     enteredZone =
                       (isInside nearestDanger \<and>
                        \<not> (case prev of None \<Rightarrow> False | Some p \<Rightarrow> prev_isInside p));
                     crossedCritical =
                       (km_le (distance nearestDanger) (Km CRITICAL_THRESHOLD) \<and>
                        km_less (Km CRITICAL_THRESHOLD)
                          (case prev of None \<Rightarrow> Infinity | Some p \<Rightarrow> prev_distance p));
                     eventChanged =
                       (map_option prev_eventId prev \<noteq> Some (ev_id (event nearestDanger)));
                     alerts =
                       (if enteredZone then
                          [\<lparr> atype = Proximity, severity = Critical, title = YouAreInADangerZone,
                             message = MsgYouAreInside (name (event nearestDanger))
                               (case action (event nearestDanger) of
                                  None \<Rightarrow> ''Take action immediately!''
                                | Some a \<Rightarrow> if a = [] then ''Take action immediately!'' else a),
                             eventId = Some (ev_id (event nearestDanger)) \<rparr>]
                        else if crossedCritical \<and> \<not> isInside nearestDanger then
                          [\<lparr> atype = Proximity, severity = Critical, title = DangerZoneVeryClose,
                             message = MsgIsOnlyAway (name (event nearestDanger))
                               (distance nearestDanger),
                             eventId = Some (ev_id (event nearestDanger)) \<rparr>]
                        else if eventChanged \<and>
                                km_le (distance nearestDanger) (Km DANGER_THRESHOLD) then
                          [\<lparr> atype = Proximity, severity = Warning, title = NewNearbyWarning,
                             message = MsgIsNowTheClosest (name (event nearestDanger))
                               (distance nearestDanger),
                             eventId = Some (ev_id (event nearestDanger)) \<rparr>]
                        else [])
                 in (alerts,
                     Some \<lparr> prev_eventId = ev_id (event nearestDanger),
                            prev_distance = distance nearestDanger,
                            prev_isInside = isInside nearestDanger \<rparr>)))"

text \<open>
  One evaluation tick: React runs the change-detection effect, then the proximity
  effect, on the same events and location.
\<close>

definition evaluationTick ::
  "turf \<Rightarrow> bool \<Rightarrow> point option \<Rightarrow> event list \<Rightarrow> engine_memory
     \<Rightarrow> alert_request list \<times> engine_memory" where
  "evaluationTick T isReady userLocation events mem =
     (let (changeAlerts, pe) = changeDetectionEffect isReady events (previousEventsRef mem);
          (proximityAlerts, pn) = proximityEffect T isReady userLocation events (previousNearestRef mem)
      in (changeAlerts @ proximityAlerts, \<lparr> previousEventsRef = pe, previousNearestRef = pn \<rparr>))"

definition no_memory :: engine_memory where
  "no_memory = \<lparr> previousEventsRef = Map.empty, previousNearestRef = None \<rparr>"

section \<open>The hazard source client (src/lib/vic-emergency.ts)\<close>



datatype js_error = Error string








section \<open>The polling driver (useFireEvents)\<close>

record EmergencyDeltaResponse =
  delta_lastHash :: string

record fire_events_state =
  st_events :: "event list"
  st_loading :: bool
  st_error :: "string option"
  st_lastHash :: "string option"
  st_lastUpdated :: "nat option"

definition initial_fire_state :: fire_events_state where
  "initial_fire_state =
     \<lparr> st_events = [], st_loading = True, st_error = None, st_lastHash = None,
       st_lastUpdated = None \<rparr>"

text \<open>
  The initial load.  \<open>getEvents\<close> and \<open>getDelta\<close> are the outcomes of the two calls
  of \<open>VICEmergencyAPI\<close>: \<open>Inl\<close> when \<open>fetchWithRetry\<close> (or the JSON parse) throws.
\<close>

definition init ::
  "(js_error + event list) \<Rightarrow> (js_error + EmergencyDeltaResponse) \<Rightarrow> nat
     \<Rightarrow> fire_events_state \<Rightarrow> fire_events_state" where
  "init getEvents getDelta now s =
     (case getEvents of
        Inr newEvents \<Rightarrow>
          let s1 = s\<lparr>st_events := newEvents, st_lastUpdated := Some now, st_loading := False\<rparr>
          in (case getDelta of
                Inr delta \<Rightarrow> s1\<lparr>st_lastHash := Some (delta_lastHash delta)\<rparr>
              | Inl err \<Rightarrow> s1)
      | Inl (Error msg) \<Rightarrow> s\<lparr>st_error := Some msg, st_loading := False\<rparr>)"

text \<open>
  The polling effect installs its interval only when \<open>lastHash\<close> is truthy
  (\<open>if (!lastHash) return\<close>).
\<close>

definition pollingActive :: "fire_events_state \<Rightarrow> bool" where
  "pollingActive s = (case st_lastHash s of None \<Rightarrow> False | Some h \<Rightarrow> h \<noteq> [])"

definition checkForUpdates ::
  "(js_error + EmergencyDeltaResponse) \<Rightarrow> (js_error + event list) \<Rightarrow> nat
     \<Rightarrow> fire_events_state \<Rightarrow> fire_events_state" where
  "checkForUpdates getDelta getEvents now s =
     (case getDelta of
        Inl err \<Rightarrow> s
      | Inr delta \<Rightarrow>
          if Some (delta_lastHash delta) \<noteq> st_lastHash s then
            let s1 = s\<lparr>st_lastHash := Some (delta_lastHash delta)\<rparr> in
            (case getEvents of
               Inl err \<Rightarrow> s1
             | Inr newEvents \<Rightarrow> s1\<lparr>st_events := newEvents, st_lastUpdated := Some now\<rparr>)
          else s)"

text \<open>One firing of the interval, if there is one.\<close>

definition pollTick ::
  "(js_error + EmergencyDeltaResponse) \<Rightarrow> (js_error + event list) \<Rightarrow> nat
     \<Rightarrow> fire_events_state \<Rightarrow> fire_events_state" where
  "pollTick getDelta getEvents now s =
     (if pollingActive s then checkForUpdates getDelta getEvents now s else s)"

section \<open>Sample data for the evaluated examples\<close>

text \<open>
  A planar stand-in for turf: even-odd ray casting over the edges of the closed ring,
  and the taxicab distance.
\<close>

fun crossings :: "point \<Rightarrow> ring \<Rightarrow> nat" where
  "crossings p (a # b # rest) =
     (if (snd a > snd p) \<noteq> (snd b > snd p) \<and>
         fst p < (fst b - fst a) * (snd p - snd a) / (snd b - snd a) + fst a
      then 1 else 0) + crossings p (b # rest)"
| "crossings p [a] = 0"
| "crossings p [] = 0"

definition planar_turf :: turf where
  "planar_turf =
     \<lparr> turf_inPolygon = (\<lambda>p r. Some (odd (crossings p r))),
       turf_distance = (\<lambda>a b. \<bar>fst a - fst b\<bar> + \<bar>snd a - snd b\<bar>) \<rparr>"

definition zone_around_origin :: event where
  "zone_around_origin =
     \<lparr> ev_id = IdStr ''H1'', updated = ''2024-01-01T00:00:00Z'',
       action = Some ''Leave Immediately'', name = ''Bushfire'', location = ''Origin'',
       polygon = Some [(-1, -1), (1, -1), (1, 1), (-1, 1)] \<rparr>"

definition zone_nearby :: event where
  "zone_nearby =
     \<lparr> ev_id = IdNum 2, updated = ''2024-01-01T01:00:00Z'', action = Some ''Leave'',
       name = ''Grass Fire'', location = ''East'',
       polygon = Some [(3, 0), (4, 0), (3, 1)] \<rparr>"

definition zone_far :: event where
  "zone_far =
     \<lparr> ev_id = IdStr ''H3'', updated = ''2024-01-01T02:00:00Z'',
       action = Some ''Shelter In Place Now'', name = ''Bushfire'', location = ''North'',
       polygon = Some [(10, 10), (11, 10), (10, 11)] \<rparr>"

definition zone_degenerate :: event where
  "zone_degenerate =
     \<lparr> ev_id = IdStr ''H4'', updated = ''2024-01-01T03:00:00Z'', action = None,
       name = ''Incident'', location = ''South'',
       polygon = Some [(0, 0), (1, 1)] \<rparr>"

definition sample_events :: "event list" where
  "sample_events = [zone_nearby, zone_degenerate, zone_far, zone_around_origin]"

definition twice_listed :: "event list" where
  "twice_listed = [zone_nearby, zone_nearby\<lparr>updated := ''2024-01-01T05:00:00Z''\<rparr>]"

definition info_request :: alert_request where
  "info_request =
     \<lparr> atype = ZoneChange, severity = Info, title = WarningUpdated,
       message = MsgHasBeenUpdated ''Bushfire'', eventId = Some (IdStr ''H1'') \<rparr>"

definition critical_request :: alert_request where
  "critical_request =
     \<lparr> atype = Proximity, severity = Critical, title = YouAreInADangerZone,
       message = MsgYouAreInside ''Bushfire'' ''Leave Immediately'',
       eventId = Some (IdStr ''H1'') \<rparr>"

definition shown_alert :: alert where
  "shown_alert =
     \<lparr> atype = ZoneChange, severity = Info, title = WarningUpdated,
       message = MsgHasBeenUpdated ''Bushfire'', eventId = Some (IdStr ''H1''),
       alert_id = ''1700-k3x9q2a'', timestamp = 1700, dismissed = False \<rparr>"


definition cached_state :: fire_events_state where
  "cached_state =
     \<lparr> st_events = [zone_nearby], st_loading = False, st_error = None,
       st_lastHash = Some ''h1'', st_lastUpdated = Some 1000 \<rparr>"

lemmas sample_defs =
  sample_events_def zone_around_origin_def zone_nearby_def zone_far_def zone_degenerate_def

lemmas kernel_defs =
  calculateProximity_def usablePolygon_def proximityOf_def isPointInPolygon_def
  distanceToPolygon_def minDistStep_def calculateDistance_def planar_turf_def js_sort_def
  compareProximity_def getActionPriority_def toLowerCase_def toLowerCase_char_def
  str_includes_def Let_def

section \<open>The action classifier\<close>

lemma str_includes_Nil: "str_includes [] p \<longleftrightarrow> p = []"
  by (simp add: str_includes_def)

lemma toLowerCase_shelter_example:
  "toLowerCase ''Shelter In Place Now'' = ''shelter in place now''"
  by (simp add: toLowerCase_def toLowerCase_char_def)

lemma getActionPriority_Some:
  "getActionPriority (Some a) =
     (if str_includes (toLowerCase a) ''shelter'' then 3
      else if str_includes (toLowerCase a) ''leave immediately'' then 2
      else if str_includes (toLowerCase a) ''leave'' then 1
      else 0)"
  by (cases "a = []") (simp_all add: getActionPriority_def toLowerCase_def str_includes_Nil)

text \<open>
  Claim C4.  \<open>getActionPriority\<close> is 0 for an absent action; for a present action it is
  3 if the lower-cased text contains "shelter", else 2 if it contains
  "leave immediately", else 1 if it contains "leave", else 0.  "Shelter In Place Now"
  has priority 3; any text containing "shelter" has priority 3 even when it also
  contains "leave"; and a text containing "leave immediately" but not "shelter" has
  priority 2, although it contains "leave".
\<close>

theorem getActionPriority_classifies:
  "getActionPriority None = 0 \<and>
   getActionPriority (Some a) =
     (if str_includes (toLowerCase a) ''shelter'' then 3
      else if str_includes (toLowerCase a) ''leave immediately'' then 2
      else if str_includes (toLowerCase a) ''leave'' then 1
      else 0) \<and>
   getActionPriority (Some ''Shelter In Place Now'') = 3 \<and>
   (str_includes (toLowerCase a) ''shelter'' \<and> str_includes (toLowerCase a) ''leave''
      \<longrightarrow> getActionPriority (Some a) = 3) \<and>
   (str_includes (toLowerCase a) ''leave immediately'' \<and>
    \<not> str_includes (toLowerCase a) ''shelter''
      \<longrightarrow> getActionPriority (Some a) = 2 \<and> str_includes (toLowerCase a) ''leave'')"
proof -
  have absent: "getActionPriority None = 0"
    by (simp add: getActionPriority_def)
  have example: "getActionPriority (Some ''Shelter In Place Now'') = 3"
    unfolding getActionPriority_Some toLowerCase_shelter_example
    by (simp add: str_includes_def sublist_code(3))
  have shadow: "str_includes s ''leave''" if "str_includes s ''leave immediately''" for s
  proof -
    from that obtain ps ss where "s = ps @ ''leave immediately'' @ ss"
      by (auto simp: str_includes_def sublist_def)
    then have "s = ps @ ''leave'' @ ('' immediately'' @ ss)"
      by simp
    then show ?thesis
      unfolding str_includes_def sublist_def by blast
  qed
  show ?thesis
    using absent example shadow [of "toLowerCase a"]
    by (simp add: getActionPriority_Some)
qed

theorem getActionPriority_classifies_witness:
  "getActionPriority (Some ''Leave Immediately'') = 2 \<and>
   getActionPriority (Some ''Shelter now, do not leave'') = 3"
proof -
  have l: "toLowerCase ''Leave Immediately'' = ''leave immediately''"
    by (simp add: toLowerCase_def toLowerCase_char_def)
  have s: "toLowerCase ''Shelter now, do not leave'' = ''shelter now, do not leave''"
    by (simp add: toLowerCase_def toLowerCase_char_def)
  have "getActionPriority (Some ''Leave Immediately'') = 2"
    using getActionPriority_classifies [of "''Leave Immediately''"]
    unfolding l by (simp add: str_includes_def sublist_code(3))
  moreover have "getActionPriority (Some ''Shelter now, do not leave'') = 3"
    using getActionPriority_classifies [of "''Shelter now, do not leave''"]
    unfolding s by (simp add: str_includes_def sublist_code(3))
  ultimately show ?thesis by simp
qed

section \<open>Distance to a polygon\<close>

lemma fold_minDistStep_Km:
  "fold (minDistStep T p) vs (Km m) = Km (Min (insert m (turf_distance T p ` set vs)))"
proof (induction vs arbitrary: m)
  case Nil
  show ?case by simp
next
  case (Cons v vs)
  have step: "minDistStep T p v (Km m) = Km (min (turf_distance T p v) m)"
    by (simp add: minDistStep_def calculateDistance_def min_def)
  have "Min (insert (min (turf_distance T p v) m) (turf_distance T p ` set vs)) =
        Min (insert m (insert (turf_distance T p v) (turf_distance T p ` set vs)))"
    by (cases "vs = []") (simp_all add: min.commute min.left_commute min.assoc)
  then show ?case
    by (simp add: step Cons.IH)
qed

lemma fold_minDistStep_Infinity:
  "vs \<noteq> [] \<Longrightarrow> fold (minDistStep T p) vs Infinity = Km (Min (turf_distance T p ` set vs))"
proof (cases vs)
  case Nil
  assume "vs \<noteq> []"
  with Nil show ?thesis by simp
next
  case (Cons v ws)
  have "minDistStep T p v Infinity = Km (turf_distance T p v)"
    by (simp add: minDistStep_def calculateDistance_def)
  then show ?thesis
    by (simp add: Cons fold_minDistStep_Km)
qed

text \<open>
  Claim C8.  \<open>distanceToPolygon\<close> is \<open>Infinity\<close> for a missing ring and for a ring of
  fewer than 3 vertices; otherwise it is 0 when \<open>isPointInPolygon\<close> holds; otherwise
  it is the least of the distances from the point to the ring's vertices.
\<close>

theorem distanceToPolygon_cases:
  "distanceToPolygon T p None = Infinity \<and>
   distanceToPolygon T p (Some ring) =
     (if length ring < 3 then Infinity
      else if isPointInPolygon T p (Some ring) then Km 0
      else Km (Min (turf_distance T p ` set ring)))"
proof -
  have "fold (minDistStep T p) ring Infinity = Km (Min (turf_distance T p ` set ring))"
    if "\<not> length ring < 3"
    using that by (intro fold_minDistStep_Infinity) auto
  then show ?thesis
    by (simp add: distanceToPolygon_def)
qed

theorem distanceToPolygon_cases_witness:
  "distanceToPolygon planar_turf (3, 0) (Some [(0, 0), (1, 0), (0, 1)]) = Km 2 \<and>
   distanceToPolygon planar_turf (0, 0) (Some [(-1, -1), (1, -1), (1, 1), (-1, 1)]) = Km 0 \<and>
   distanceToPolygon planar_turf (0, 0) (Some [(0, 0), (1, 1)]) = Infinity"
  using distanceToPolygon_cases [of planar_turf "(3, 0)" "[(0, 0), (1, 0), (0, 1)]"]
    distanceToPolygon_cases [of planar_turf "(0, 0)" "[(-1, -1), (1, -1), (1, 1), (-1, 1)]"]
    distanceToPolygon_cases [of planar_turf "(0, 0)" "[(0, 0), (1, 1)]"]
  by (simp add: isPointInPolygon_def planar_turf_def)

section \<open>The proximity ranking\<close>

lemma km_compare_le: "km_compare a b \<le> 0 \<longleftrightarrow> km_le a b"
  by (cases a; cases b) auto

lemma km_le_total: "km_le a b \<or> km_le b a"
  by (cases a; cases b) auto

lemma km_le_trans: "km_le a b \<Longrightarrow> km_le b c \<Longrightarrow> km_le a c"
  by (cases a; cases b; cases c) auto

lemma compareProximity_le: "compareProximity a b \<le> 0 \<longleftrightarrow> rankedBefore a b"
proof (cases "isInside a = isInside b")
  case False
  then show ?thesis
    by (cases "isInside a") (simp_all add: compareProximity_def rankedBefore_def)
next
  case inside: True
  show ?thesis
  proof (cases "actionPriority a = actionPriority b")
    case True
    with inside show ?thesis
      by (simp add: compareProximity_def rankedBefore_def km_compare_le)
  next
    case False
    with inside show ?thesis
      by (simp add: compareProximity_def rankedBefore_def)
  qed
qed

lemma rankedBefore_total: "rankedBefore a b \<or> rankedBefore b a"
proof (cases "isInside a = isInside b")
  case False
  then show ?thesis
    by (cases "isInside a") (simp_all add: rankedBefore_def)
next
  case True
  then show ?thesis
    using km_le_total [of "distance a" "distance b"]
    by (cases "actionPriority a" "actionPriority b" rule: linorder_cases)
      (auto simp: rankedBefore_def)
qed

lemma rankedBefore_trans:
  assumes ab: "rankedBefore a b" and bc: "rankedBefore b c"
  shows "rankedBefore a c"
proof (cases "isInside a = isInside c")
  case False
  with ab bc show ?thesis
    by (auto simp: rankedBefore_def)
next
  case True
  with ab bc have ins: "isInside a = isInside b" "isInside b = isInside c"
    by (auto simp: rankedBefore_def)
  with ab bc have pr: "actionPriority b \<le> actionPriority a" "actionPriority c \<le> actionPriority b"
    by (simp_all add: rankedBefore_def)
  show ?thesis
  proof (cases "actionPriority a = actionPriority c")
    case False
    with pr ins show ?thesis
      by (simp add: rankedBefore_def)
  next
    case True
    with pr have "actionPriority a = actionPriority b" "actionPriority b = actionPriority c"
      by simp_all
    with ins ab bc have "km_le (distance a) (distance b)" "km_le (distance b) (distance c)"
      by (simp_all add: rankedBefore_def)
    then have "km_le (distance a) (distance c)"
      by (rule km_le_trans)
    with ins pr show ?thesis
      by (simp add: rankedBefore_def)
  qed
qed

lemma set_sort_insert: "set (sort_insert c x xs) = insert x (set xs)"
  by (induction xs) auto

lemma mset_sort_insert: "mset (sort_insert c x xs) = add_mset x (mset xs)"
  by (induction xs) auto

lemma mset_js_sort: "mset (js_sort c xs) = mset xs"
  by (induction xs) (simp_all add: js_sort_def mset_sort_insert)

lemma sorted_sort_insert:
  assumes total: "\<And>a b. c a b \<le> 0 \<or> c b a \<le> 0"
    and trans: "\<And>a b d. c a b \<le> 0 \<Longrightarrow> c b d \<le> 0 \<Longrightarrow> c a d \<le> 0"
    and sorted: "sorted_wrt (\<lambda>a b. c a b \<le> 0) xs"
  shows "sorted_wrt (\<lambda>a b. c a b \<le> 0) (sort_insert c x xs)"
  using sorted
proof (induction xs)
  case Nil
  show ?case by simp
next
  case (Cons y ys)
  show ?case
  proof (cases "c x y \<le> 0")
    case True
    with Cons.prems show ?thesis
      by (auto intro: trans)
  next
    case False
    with total [of x y] have "c y x \<le> 0" by simp
    with False Cons show ?thesis
      by (auto simp: set_sort_insert)
  qed
qed

lemma sorted_js_sort:
  assumes total: "\<And>a b. c a b \<le> 0 \<or> c b a \<le> 0"
    and trans: "\<And>a b d. c a b \<le> 0 \<Longrightarrow> c b d \<le> 0 \<Longrightarrow> c a d \<le> 0"
  shows "sorted_wrt (\<lambda>a b. c a b \<le> 0) (js_sort c xs)"
proof (induction xs)
  case Nil
  show ?case by (simp add: js_sort_def)
next
  case (Cons x xs)
  have "js_sort c (x # xs) = sort_insert c x (js_sort c xs)"
    by (simp add: js_sort_def)
  with Cons show ?case
    by (simp add: sorted_sort_insert total trans)
qed

lemma event_proximityOf: "event (proximityOf T loc ev) = ev"
  by (simp add: proximityOf_def Let_def)

lemma sorted_calculateProximity:
  "sorted_wrt rankedBefore (calculateProximity T loc events)"
proof -
  have "sorted_wrt (\<lambda>a b. compareProximity a b \<le> 0) (calculateProximity T loc events)"
    unfolding calculateProximity_def
  proof (rule sorted_js_sort)
    show "compareProximity a b \<le> 0 \<or> compareProximity b a \<le> 0" for a b
      by (simp add: compareProximity_le rankedBefore_total)
    show "compareProximity a d \<le> 0"
      if "compareProximity a b \<le> 0" "compareProximity b d \<le> 0" for a b d
      using that by (simp add: compareProximity_le) (rule rankedBefore_trans)
  qed
  then show ?thesis
    by (simp add: compareProximity_le)
qed

lemma mset_calculateProximity:
  "mset (calculateProximity T loc events) =
     image_mset (proximityOf T loc) (filter_mset usablePolygon (mset events))"
  by (simp add: calculateProximity_def mset_js_sort)

text \<open>
  Claim C2.  The events of the results of \<open>calculateProximity\<close> are exactly the
  hazards with a polygon of at least 3 vertices, each once per occurrence in the
  input; every result is computed from its own event; and for any two positions
  \<open>i < j\<close> the result at \<open>i\<close> is ranked before the one at \<open>j\<close>: no inside result
  after an outside one, non-increasing priority among equal \<open>isInside\<close>, and
  non-decreasing distance among results equal on both.
\<close>

theorem calculateProximity_ranked:
  "mset (map event (calculateProximity T loc events)) = mset (filter usablePolygon events) \<and>
   (\<forall>r \<in> set (calculateProximity T loc events). r = proximityOf T loc (event r)) \<and>
   (\<forall>j < length (calculateProximity T loc events). \<forall>i < j.
      rankedBefore (calculateProximity T loc events ! i) (calculateProximity T loc events ! j))"
proof -
  have "mset (map event (calculateProximity T loc events)) =
        image_mset event (mset (calculateProximity T loc events))"
    by simp
  also have "\<dots> = image_mset (event \<circ> proximityOf T loc) (filter_mset usablePolygon (mset events))"
    by (simp only: mset_calculateProximity image_mset.compositionality)
  also have "event \<circ> proximityOf T loc = (\<lambda>e. e)"
    by (rule ext) (simp add: event_proximityOf)
  finally have members:
    "mset (map event (calculateProximity T loc events)) = mset (filter usablePolygon events)"
    by simp
  have "set (calculateProximity T loc events) \<subseteq> range (proximityOf T loc)"
    using mset_calculateProximity [of T loc events, THEN arg_cong, of set_mset]
    by auto
  then have results: "\<forall>r \<in> set (calculateProximity T loc events). r = proximityOf T loc (event r)"
    by (auto simp: event_proximityOf)
  show ?thesis
    using members results sorted_calculateProximity [of T loc events]
    by (simp add: sorted_wrt_iff_nth_less)
qed

lemma sample_ranking:
  "map (ev_id \<circ> event) (calculateProximity planar_turf (0, 0) sample_events) =
     [IdStr ''H1'', IdStr ''H3'', IdNum 2]"
  by (simp add: sample_defs kernel_defs sublist_code(3))

lemma sample_nearest:
  "getNearestDanger planar_turf (0, 0) sample_events =
     Some \<lparr> event = zone_around_origin, distance = Km 0, isInside = True, actionPriority = 2 \<rparr>"
  by (simp add: getNearestDanger_def sample_defs kernel_defs sublist_code(3))

theorem calculateProximity_ranked_witness:
  "rankedBefore (calculateProximity planar_turf (0, 0) sample_events ! 0)
     (calculateProximity planar_turf (0, 0) sample_events ! 2) \<and>
   map (ev_id \<circ> event) (calculateProximity planar_turf (0, 0) sample_events) =
     [IdStr ''H1'', IdStr ''H3'', IdNum 2]"
proof -
  have "length (map (ev_id \<circ> event) (calculateProximity planar_turf (0, 0) sample_events)) = 3"
    by (simp only: sample_ranking) simp
  then have len: "2 < length (calculateProximity planar_turf (0, 0) sample_events)"
    by simp
  from calculateProximity_ranked [of planar_turf "(0, 0)" sample_events] len
  have "rankedBefore (calculateProximity planar_turf (0, 0) sample_events ! 0)
     (calculateProximity planar_turf (0, 0) sample_events ! 2)"
    by (metis zero_less_numeral)
  with sample_ranking show ?thesis
    by simp
qed

section \<open>The proximity watch\<close>

text \<open>
  Claim C1.  After ready, with a location, a non-empty event list and a nearest result
  \<open>n\<close>, the proximity effect hands at most one alert to \<open>addAlert\<close> and stores the
  snapshot of \<open>n\<close>.  The alert is chosen in this order: a critical "you are in a danger
  zone" alert if \<open>n\<close> is inside and the previous snapshot (if any) was not; else a
  critical "danger zone very close" alert if \<open>n\<close> is not inside, its distance is at most
  2 km and the previous distance (infinite without a snapshot) was above 2 km; else a
  warning "new nearby warning" alert if the previous snapshot's id (if any) is not the
  id of \<open>n\<close>'s hazard and the distance is at most 5 km; else no alert.
\<close>

theorem proximity_watch_priority:
  assumes "events \<noteq> []" and "getNearestDanger T loc events = Some n"
  shows "\<exists>alerts.
     proximityEffect T True (Some loc) events prev = (alerts, Some (snapshotOf n)) \<and>
     length alerts \<le> 1 \<and>
     (if isInside n \<and> \<not> (case prev of None \<Rightarrow> False | Some p \<Rightarrow> prev_isInside p) then
        \<exists>a. alerts = [a] \<and> atype a = Proximity \<and> severity a = Critical \<and>
            title a = YouAreInADangerZone \<and> eventId a = Some (ev_id (event n))
      else if \<not> isInside n \<and> km_le (distance n) (Km 2) \<and>
              km_less (Km 2) (case prev of None \<Rightarrow> Infinity | Some p \<Rightarrow> prev_distance p) then
        \<exists>a. alerts = [a] \<and> atype a = Proximity \<and> severity a = Critical \<and>
            title a = DangerZoneVeryClose \<and> eventId a = Some (ev_id (event n))
      else if map_option prev_eventId prev \<noteq> Some (ev_id (event n)) \<and>
              km_le (distance n) (Km 5) then
        \<exists>a. alerts = [a] \<and> atype a = Proximity \<and> severity a = Warning \<and>
            title a = NewNearbyWarning \<and> eventId a = Some (ev_id (event n))
      else alerts = [])"
  using assms
  by (simp add: proximityEffect_def snapshotOf_def CRITICAL_THRESHOLD_def DANGER_THRESHOLD_def
      Let_def)

lemma sample_nearest_outside:
  "getNearestDanger planar_turf (3 / 2, 0) [zone_nearby, zone_degenerate] =
     Some \<lparr> event = zone_nearby, distance = Km (3 / 2), isInside = False, actionPriority = 1 \<rparr>"
  by (simp add: getNearestDanger_def sample_defs kernel_defs sublist_code(3))

theorem proximity_watch_priority_witness:
  "(\<exists>a. fst (proximityEffect planar_turf True (Some (0, 0)) sample_events None) = [a] \<and>
        severity a = Critical \<and> title a = YouAreInADangerZone \<and>
        eventId a = Some (IdStr ''H1'')) \<and>
   (\<exists>a. fst (proximityEffect planar_turf True (Some (3 / 2, 0)) [zone_nearby, zone_degenerate]
              (Some \<lparr> prev_eventId = IdNum 2, prev_distance = Km 10,
                      prev_isInside = False \<rparr>)) = [a] \<and>
        severity a = Critical \<and> title a = DangerZoneVeryClose \<and> eventId a = Some (IdNum 2)) \<and>
   fst (proximityEffect planar_turf True (Some (3 / 2, 0)) [zone_nearby, zone_degenerate]
          (Some \<lparr> prev_eventId = IdNum 2, prev_distance = Km (3 / 2),
                  prev_isInside = False \<rparr>)) = []"
proof -
  have ne: "sample_events \<noteq> []"
    by (simp add: sample_events_def)
  have ne': "[zone_nearby, zone_degenerate] \<noteq> []"
    by simp
  from proximity_watch_priority [OF ne sample_nearest, of None]
  have entered: "\<exists>a. fst (proximityEffect planar_turf True (Some (0, 0)) sample_events None) = [a] \<and>
        severity a = Critical \<and> title a = YouAreInADangerZone \<and>
        eventId a = Some (IdStr ''H1'')"
    by (auto simp: zone_around_origin_def)
  from proximity_watch_priority [OF ne' sample_nearest_outside,
      of "Some \<lparr> prev_eventId = IdNum 2, prev_distance = Km 10, prev_isInside = False \<rparr>"]
  have crossed: "\<exists>a. fst (proximityEffect planar_turf True (Some (3 / 2, 0))
              [zone_nearby, zone_degenerate]
              (Some \<lparr> prev_eventId = IdNum 2, prev_distance = Km 10,
                      prev_isInside = False \<rparr>)) = [a] \<and>
        severity a = Critical \<and> title a = DangerZoneVeryClose \<and> eventId a = Some (IdNum 2)"
    by (auto simp: zone_nearby_def)
  from proximity_watch_priority [OF ne' sample_nearest_outside,
      of "Some \<lparr> prev_eventId = IdNum 2, prev_distance = Km (3 / 2), prev_isInside = False \<rparr>"]
  have steady: "fst (proximityEffect planar_turf True (Some (3 / 2, 0))
          [zone_nearby, zone_degenerate]
          (Some \<lparr> prev_eventId = IdNum 2, prev_distance = Km (3 / 2),
                  prev_isInside = False \<rparr>)) = []"
    by (auto simp: zone_nearby_def)
  from entered crossed steady show ?thesis
    by (intro conjI)
qed

section \<open>The change-detection watch\<close>

lemma snd_checkEvent: "snd (checkEvent m ev) = m(ev_id ev \<mapsto> updated ev)"
  by (simp add: checkEvent_def Let_def)

lemma checkEvent_known_unchanged:
  assumes "m (ev_id ev) = Some (updated ev)" and "updated ev \<noteq> []"
  shows "checkEvent m ev = ([], m)"
proof -
  have "m(ev_id ev \<mapsto> updated ev) = m"
    using assms(1) by (rule map_upd_triv)
  with assms show ?thesis
    by (simp add: checkEvent_def Let_def)
qed

lemma snd_checkEvents_Cons:
  "snd (checkEvents m (e # es)) = snd (checkEvents (m(ev_id e \<mapsto> updated e)) es)"
proof -
  have "snd (checkEvents m (e # es)) = snd (checkEvents (snd (checkEvent m e)) es)"
    by (simp add: split_beta)
  then show ?thesis
    by (simp only: snd_checkEvent)
qed

lemma snd_checkEvents_other:
  "k \<notin> ev_id ` set es \<Longrightarrow> snd (checkEvents m es) k = m k"
proof (induction es arbitrary: m)
  case Nil
  show ?case by simp
next
  case (Cons e es)
  from Cons.prems have rest: "k \<notin> ev_id ` set es" and head: "k \<noteq> ev_id e"
    by auto
  have "snd (checkEvents m (e # es)) k = snd (checkEvents (m(ev_id e \<mapsto> updated e)) es) k"
    by (simp only: snd_checkEvents_Cons)
  also have "\<dots> = (m(ev_id e \<mapsto> updated e)) k"
    using rest by (rule Cons.IH)
  also have "\<dots> = m k"
    using head by simp
  finally show ?case .
qed

lemma snd_checkEvents_member:
  "distinct (map ev_id es) \<Longrightarrow> ev \<in> set es \<Longrightarrow>
     snd (checkEvents m es) (ev_id ev) = Some (updated ev)"
proof (induction es arbitrary: m)
  case Nil
  then show ?case by simp
next
  case (Cons e es)
  let ?m1 = "m(ev_id e \<mapsto> updated e)"
  have step: "snd (checkEvents m (e # es)) = snd (checkEvents ?m1 es)"
    by (rule snd_checkEvents_Cons)
  show ?case
  proof (cases "ev = e")
    case True
    from Cons.prems have "ev_id e \<notin> ev_id ` set es"
      by simp
    then have "snd (checkEvents ?m1 es) (ev_id e) = ?m1 (ev_id e)"
      by (rule snd_checkEvents_other)
    then have "snd (checkEvents ?m1 es) (ev_id e) = Some (updated e)"
      by simp
    then show ?thesis
      unfolding True by (simp only: step)
  next
    case False
    with Cons.prems have "ev \<in> set es" and "distinct (map ev_id es)"
      by simp_all
    then have "snd (checkEvents ?m1 es) (ev_id ev) = Some (updated ev)"
      by (intro Cons.IH)
    then show ?thesis
      by (simp only: step)
  qed
qed

lemma checkEvents_steady:
  "\<forall>ev \<in> set es. m (ev_id ev) = Some (updated ev) \<and> updated ev \<noteq> [] \<Longrightarrow>
     checkEvents m es = ([], m)"
proof (induction es)
  case Nil
  show ?case by simp
next
  case (Cons e es)
  then have "checkEvent m e = ([], m)"
    by (simp add: checkEvent_known_unchanged)
  with Cons show ?case
    by simp
qed

lemma proximityEffect_steady:
  assumes "proximityEffect T True loc events prev = (al, prev')"
  shows "proximityEffect T True loc events prev' = ([], prev')"
proof (cases loc)
  case None
  with assms show ?thesis
    by (simp add: proximityEffect_def)
next
  case (Some l)
  show ?thesis
  proof (cases "events = [] \<or> getNearestDanger T l events = None")
    case True
    with assms Some show ?thesis
      by (auto simp: proximityEffect_def)
  next
    case False
    then obtain n where n: "getNearestDanger T l events = Some n" and ne: "events \<noteq> []"
      by auto
    from assms Some n ne have prev': "prev' = Some (snapshotOf n)"
      by (simp add: proximityEffect_def snapshotOf_def Let_def)
    have "\<not> (km_le d (Km t) \<and> km_less (Km t) d)" for d t
      by (cases d) auto
    then have "\<not> (km_le (distance n) (Km CRITICAL_THRESHOLD) \<and>
                km_less (Km CRITICAL_THRESHOLD) (distance n))"
      by blast
    then show ?thesis
      by (auto simp: proximityEffect_def Some n ne prev' snapshotOf_def Let_def)
  qed
qed

lemma checkEvent_new:
  assumes "m (ev_id ev) = None"
  shows "checkEvent m ev =
     (let act = (case action ev of None \<Rightarrow> [] | Some a \<Rightarrow> toLowerCase a) in
      if str_includes act ''shelter'' \<or> str_includes act ''leave'' then
        [\<lparr> atype = NewWarning,
           severity = (if str_includes act ''shelter'' then Critical else Warning),
           title = (if str_includes act ''shelter''
                    then NewShelterInPlaceWarning else NewEvacuationWarning),
           message = MsgNameLocation (name ev) (location ev),
           eventId = Some (ev_id ev) \<rparr>]
      else [],
      m(ev_id ev \<mapsto> updated ev))"
  using assms by (simp add: checkEvent_def Let_def)

lemma checkEvent_changed:
  assumes "m (ev_id ev) = Some u" and "u \<noteq> []" and "u \<noteq> updated ev"
  shows "checkEvent m ev =
     ([\<lparr> atype = ZoneChange, severity = Info, title = WarningUpdated,
         message = MsgHasBeenUpdated (name ev), eventId = Some (ev_id ev) \<rparr>],
      m(ev_id ev \<mapsto> updated ev))"
  using assms by (simp add: checkEvent_def Let_def)

text \<open>
  Claim C6, at an input where the code departs from it.  A hazard present at
  initialization with the empty string as its \<open>updated\<close> stamp is seeded into memory
  with the empty string.  When, after ready, the same hazard comes with a different
  stamp, its id is in memory and the fingerprint differs, yet the watch treats it as
  new: it emits a new-warning alert when the action text is actionable, and nothing
  (no zone-change alert) when it is not.
\<close>

theorem empty_fingerprint_counts_as_new:
  "let m = previousEventsRef (snd (initializationEffect planar_turf None
             [zone_around_origin\<lparr>updated := []\<rparr>] False no_memory))
   in m (IdStr ''H1'') = Some [] \<and>
      ev_id zone_around_origin = IdStr ''H1'' \<and>
      updated zone_around_origin = ''2024-01-01T00:00:00Z'' \<and>
      map atype (fst (changeDetectionEffect True [zone_around_origin] m)) = [NewWarning] \<and>
      map severity (fst (changeDetectionEffect True [zone_around_origin] m)) = [Warning] \<and>
      fst (changeDetectionEffect True [zone_around_origin\<lparr>action := None\<rparr>] m) = []"
  by (simp add: initializationEffect_def no_memory_def changeDetectionEffect_def checkEvent_def
      zone_around_origin_def Let_def toLowerCase_def toLowerCase_char_def str_includes_def
      sublist_code(3))

section \<open>Replaying a tick\<close>

text \<open>
  Claim C3, as amended.  After ready, for every memory and location, if the hazards of
  the list have pairwise distinct ids and non-empty \<open>updated\<close> stamps, the first tick
  leaves every hazard's current stamp in the fingerprint map and, when there is a
  nearest result, its snapshot in memory (whether or not an alert fired), and a second
  tick on the same events and location emits no alert and leaves the memory as it is.
\<close>

theorem replay_is_silent:
  assumes ids: "distinct (map ev_id events)"
    and stamps: "\<forall>ev \<in> set events. updated ev \<noteq> []"
  shows "\<exists>alerts1 mem1.
     evaluationTick T True loc events mem = (alerts1, mem1) \<and>
     evaluationTick T True loc events mem1 = ([], mem1) \<and>
     (\<forall>ev \<in> set events. previousEventsRef mem1 (ev_id ev) = Some (updated ev)) \<and>
     (\<forall>l n. loc = Some l \<and> getNearestDanger T l events = Some n
        \<longrightarrow> previousNearestRef mem1 = Some (snapshotOf n))"
proof -
  obtain ca pe where change: "checkEvents (previousEventsRef mem) events = (ca, pe)"
    by (cases "checkEvents (previousEventsRef mem) events")
  obtain pa pn where prox: "proximityEffect T True loc events (previousNearestRef mem) = (pa, pn)"
    by (cases "proximityEffect T True loc events (previousNearestRef mem)")
  define mem1 where "mem1 = \<lparr> previousEventsRef = pe, previousNearestRef = pn \<rparr>"
  have first: "evaluationTick T True loc events mem = (ca @ pa, mem1)"
    by (simp add: evaluationTick_def changeDetectionEffect_def change prox mem1_def)
  have stored: "\<forall>ev \<in> set events. pe (ev_id ev) = Some (updated ev)"
    using snd_checkEvents_member [OF ids, of _ "previousEventsRef mem"] change by simp
  with stamps have "checkEvents pe events = ([], pe)"
    by (intro checkEvents_steady) simp
  moreover have "proximityEffect T True loc events pn = ([], pn)"
    using prox by (rule proximityEffect_steady)
  ultimately have second: "evaluationTick T True loc events mem1 = ([], mem1)"
    by (simp add: evaluationTick_def changeDetectionEffect_def mem1_def)
  have snap: "pn = Some (snapshotOf n)"
    if "loc = Some l" "getNearestDanger T l events = Some n" for l n
  proof -
    from that have "events \<noteq> []"
      by (auto simp: getNearestDanger_def calculateProximity_def js_sort_def)
    with that prox show ?thesis
      by (simp add: proximityEffect_def snapshotOf_def Let_def)
  qed
  show ?thesis
    using first second stored snap by (simp add: mem1_def)
qed

theorem replay_is_silent_witness:
  "\<exists>alerts1 mem1.
     evaluationTick planar_turf True (Some (0, 0)) sample_events no_memory = (alerts1, mem1) \<and>
     evaluationTick planar_turf True (Some (0, 0)) sample_events mem1 = ([], mem1)"
proof -
  have ids: "distinct (map ev_id sample_events)"
    by (simp add: sample_defs)
  have stamps: "\<forall>ev \<in> set sample_events. updated ev \<noteq> []"
    by (simp add: sample_defs)
  from replay_is_silent [OF ids stamps, of planar_turf "Some (0, 0)" no_memory]
  show ?thesis by blast
qed

text \<open>
  Claim C3 as stated fails when the list names one hazard twice with different stamps:
  after initialization on that list, each tick finds the first entry changed against
  the second, and the second against the first, so the replay emits two zone-change
  alerts.
\<close>

theorem replay_twice_listed_counterexample:
  "let seeded = snd (initializationEffect planar_turf None twice_listed False no_memory);
       after_first = snd (evaluationTick planar_turf True None twice_listed seeded)
   in map ev_id twice_listed = [IdNum 2, IdNum 2] \<and>
      map atype (fst (evaluationTick planar_turf True None twice_listed after_first)) =
        [ZoneChange, ZoneChange]"
  by (simp add: initializationEffect_def evaluationTick_def changeDetectionEffect_def
      proximityEffect_def checkEvent_def twice_listed_def zone_nearby_def no_memory_def Let_def)

section \<open>The alert list\<close>

lemma severity_dismissAlert: "map severity (dismissAlert i xs) = map severity xs"
  by (simp add: dismissAlert_def)

lemma alert_id_dismissAlert: "map alert_id (dismissAlert i xs) = map alert_id xs"
  by (simp add: dismissAlert_def)

lemma set_dismissAlert_cases:
  "b \<in> set (dismissAlert i xs) \<Longrightarrow>
     \<exists>a \<in> set xs. alert_id b = alert_id a \<and> severity b = severity a"
  by (auto simp: dismissAlert_def)

lemma spare_no_alerts: "timers_spare_critical no_alerts"
  by (simp add: timers_spare_critical_def no_alerts_def)

lemma spare_addAlert:
  assumes inv: "timers_spare_critical s" and unused: "id_unused s (new_alert_id now1 rnd)"
  shows "timers_spare_critical (snd (addAlert now1 rnd now2 req s))"
  unfolding timers_spare_critical_def
proof (intro ballI impI)
  fix a t
  let ?s' = "snd (addAlert now1 rnd now2 req s)"
  assume a: "a \<in> set (activeAlerts ?s')" and t: "t \<in> set (timers ?s')"
    and crit: "severity a = Critical"
  from a have "a \<in> set (take 50 (fst (addAlert now1 rnd now2 req s) # activeAlerts s))"
    by (simp add: addAlert_def Let_def)
  then have a_cases: "a = fst (addAlert now1 rnd now2 req s) \<or> a \<in> set (activeAlerts s)"
    by (auto dest: in_set_takeD)
  from t have t_cases:
    "t \<in> set (timers s) \<or> (severity req \<noteq> Critical \<and> snd t = new_alert_id now1 rnd)"
    by (auto simp: addAlert_def Let_def split: if_splits)
  from a_cases show "alert_id a \<noteq> snd t"
  proof
    assume new: "a = fst (addAlert now1 rnd now2 req s)"
    then have "alert_id a = new_alert_id now1 rnd" and "severity a = severity req"
      by (simp_all add: addAlert_def Let_def)
    with t_cases crit unused show ?thesis
      by (auto simp: id_unused_def)
  next
    assume old: "a \<in> set (activeAlerts s)"
    from t_cases show ?thesis
    proof
      assume "t \<in> set (timers s)"
      with inv old crit show ?thesis
        by (simp add: timers_spare_critical_def)
    next
      assume "severity req \<noteq> Critical \<and> snd t = new_alert_id now1 rnd"
      with unused old show ?thesis
        by (auto simp: id_unused_def)
    qed
  qed
qed

lemma spare_dismiss:
  assumes "timers_spare_critical s"
  shows "timers_spare_critical (s\<lparr>activeAlerts := dismissAlert i (activeAlerts s)\<rparr>)"
  unfolding timers_spare_critical_def
proof (intro ballI impI)
  fix b t
  assume b: "b \<in> set (activeAlerts (s\<lparr>activeAlerts := dismissAlert i (activeAlerts s)\<rparr>))"
    and t: "t \<in> set (timers (s\<lparr>activeAlerts := dismissAlert i (activeAlerts s)\<rparr>))"
    and crit: "severity b = Critical"
  from b obtain a where "a \<in> set (activeAlerts s)" "alert_id b = alert_id a" "severity b = severity a"
    by (auto dest!: set_dismissAlert_cases)
  with assms t crit show "alert_id b \<noteq> snd t"
    by (simp add: timers_spare_critical_def)
qed

lemma spare_timerFires:
  assumes "timers_spare_critical s"
  shows "timers_spare_critical (timerFires k s)"
proof (cases "k < length (timers s)")
  case False
  with assms show ?thesis by (simp add: timerFires_def)
next
  case True
  show ?thesis
    unfolding timers_spare_critical_def
  proof (intro ballI impI)
    fix b t
    assume b: "b \<in> set (activeAlerts (timerFires k s))"
      and t: "t \<in> set (timers (timerFires k s))" and crit: "severity b = Critical"
    from b True obtain a where a: "a \<in> set (activeAlerts s)"
      and same: "alert_id b = alert_id a" "severity b = severity a"
      by (auto simp: timerFires_def dest!: set_dismissAlert_cases)
    from t True have "t \<in> set (timers s)"
      by (auto simp: timerFires_def dest: in_set_takeD in_set_dropD)
    with assms a same crit show "alert_id b \<noteq> snd t"
      by (simp add: timers_spare_critical_def)
  qed
qed

lemma timerFires_keeps_critical:
  assumes "timers_spare_critical s"
  shows "\<forall>j < length (activeAlerts s).
           severity (activeAlerts s ! j) = Critical \<longrightarrow>
           activeAlerts (timerFires k s) ! j = activeAlerts s ! j"
proof (cases "k < length (timers s)")
  case False
  then show ?thesis by (simp add: timerFires_def)
next
  case True
  show ?thesis
  proof (intro allI impI)
    fix j
    assume j: "j < length (activeAlerts s)" and crit: "severity (activeAlerts s ! j) = Critical"
    with assms True have "alert_id (activeAlerts s ! j) \<noteq> snd (timers s ! k)"
      by (simp add: timers_spare_critical_def)
    with j True show "activeAlerts (timerFires k s) ! j = activeAlerts s ! j"
      by (simp add: timerFires_def dismissAlert_def)
  qed
qed

lemma alerts_inv_step:
  assumes "alerts_inv s" and "ids_fresh s (op # ops)"
  shows "alerts_inv (alert_step s op)"
proof (cases op)
  case (Add now1 rnd now2 req)
  with assms(2) have unused: "id_unused s (new_alert_id now1 rnd)"
    by simp
  let ?a = "fst (addAlert now1 rnd now2 req s)"
  have alerts: "activeAlerts (snd (addAlert now1 rnd now2 req s)) = take 50 (?a # activeAlerts s)"
    by (simp add: addAlert_def Let_def)
  have "alert_id ?a = new_alert_id now1 rnd"
    by (simp add: addAlert_def Let_def)
  with unused have "alert_id ?a \<notin> set (map alert_id (activeAlerts s))"
    by (auto simp: id_unused_def)
  with assms(1) have "distinct (map alert_id (?a # activeAlerts s))"
    by (simp add: alerts_inv_def)
  then have "distinct (take 50 (map alert_id (?a # activeAlerts s)))"
    by (rule distinct_take)
  then have "distinct (map alert_id (take 50 (?a # activeAlerts s)))"
    by (simp only: take_map)
  moreover have "timers_spare_critical (snd (addAlert now1 rnd now2 req s))"
    using assms(1) unused by (simp add: alerts_inv_def spare_addAlert)
  ultimately show ?thesis
    by (simp add: Add alerts_inv_def alerts)
next
  case (TimerFires k)
  have "map alert_id (activeAlerts (timerFires k s)) = map alert_id (activeAlerts s)"
    by (simp add: timerFires_def alert_id_dismissAlert)
  moreover from this have "length (activeAlerts (timerFires k s)) = length (activeAlerts s)"
    by (rule map_eq_imp_length_eq)
  ultimately show ?thesis
    using assms(1) by (simp add: TimerFires alerts_inv_def spare_timerFires)
next
  case (Dismiss i)
  have "timers_spare_critical (s\<lparr>activeAlerts := dismissAlert i (activeAlerts s)\<rparr>)"
    using assms(1) by (simp add: alerts_inv_def spare_dismiss)
  moreover have "length (dismissAlert i (activeAlerts s)) = length (activeAlerts s)"
    by (simp add: dismissAlert_def)
  ultimately show ?thesis
    using assms(1) by (simp add: Dismiss alerts_inv_def alert_id_dismissAlert)
qed

lemma ids_fresh_tail: "ids_fresh s (op # ops) \<Longrightarrow> ids_fresh (alert_step s op) ops"
  by (cases op) simp_all

lemma alerts_inv_run:
  "alerts_inv s \<Longrightarrow> ids_fresh s ops \<Longrightarrow> alerts_inv (foldl alert_step s ops)"
proof (induction ops arbitrary: s)
  case Nil
  then show ?case by simp
next
  case (Cons op ops)
  then have "alerts_inv (alert_step s op)" and "ids_fresh (alert_step s op) ops"
    by (simp_all add: alerts_inv_step ids_fresh_tail del: ids_fresh.simps)
  then show ?case
    by (simp add: Cons.IH)
qed

lemma addAlert_effect:
  "addAlert now1 rnd now2 req s =
     (\<lparr> atype = atype req, severity = severity req, title = title req,
        message = message req, eventId = eventId req,
        alert_id = decimal now1 @ ''-'' @ rnd, timestamp = now2, dismissed = False \<rparr>,
      \<lparr> activeAlerts =
          take 50 (\<lparr> atype = atype req, severity = severity req, title = title req,
                     message = message req, eventId = eventId req,
                     alert_id = decimal now1 @ ''-'' @ rnd, timestamp = now2,
                     dismissed = False \<rparr> # activeAlerts s),
        timers = timers s @
          (case severity req of
             Critical \<Rightarrow> []
           | Warning \<Rightarrow> [(60000, decimal now1 @ ''-'' @ rnd)]
           | Info \<Rightarrow> [(30000, decimal now1 @ ''-'' @ rnd)]) \<rparr>)"
  by (cases "severity req")
    (simp_all add: addAlert_def Let_def new_alert_id_def AUTO_DISMISS_INFO_def
      AUTO_DISMISS_WARNING_def)

lemma decimal_1700: "decimal 1700 = ''1700''"
  by (simp add: decimal.simps)

lemma decimal_1701: "decimal 1701 = ''1701''"
  by (simp add: decimal.simps)

lemma length_alert_step:
  "length (activeAlerts s) \<le> 50 \<Longrightarrow> length (activeAlerts (alert_step s op)) \<le> 50"
proof (cases op)
  case (Add now1 rnd now2 req)
  then show ?thesis
    by (simp add: addAlert_effect)
next
  case (TimerFires k)
  assume "length (activeAlerts s) \<le> 50"
  with TimerFires show ?thesis
    by (simp add: timerFires_def dismissAlert_def)
next
  case (Dismiss i)
  assume "length (activeAlerts s) \<le> 50"
  with Dismiss show ?thesis
    by (simp add: dismissAlert_def)
qed

lemma length_run:
  "length (activeAlerts s) \<le> 50 \<Longrightarrow> length (activeAlerts (foldl alert_step s ops)) \<le> 50"
proof (induction ops arbitrary: s)
  case Nil
  then show ?case by simp
next
  case (Cons op ops)
  from Cons.prems have "length (activeAlerts (alert_step s op)) \<le> 50"
    by (rule length_alert_step)
  then show ?case
    by (simp add: Cons.IH)
qed

text \<open>
  Claim C7, as amended.  In every state \<open>s\<close> that a run of additions, callbacks and
  dismissals reaches from the empty list, whether or not ids were reused: at most 50
  alerts are retained; \<open>addAlert\<close> gives the new alert the id made of the clock
  reading and the random suffix, the timestamp and \<open>dismissed = false\<close>, prepends it
  and keeps the first 50 alerts; it schedules an auto-dismiss callback after 30 s for
  an info alert and after 60 s for a warning alert, and none for a critical alert; a
  callback that runs applies \<open>dismissAlert\<close> to the id it captured; and the visible
  list is the sublist of alerts not dismissed.  The id is not checked against the ids
  in use: only when each generated id of the run was unused when generated are the
  retained ids pairwise distinct and does no callback that runs change a critical
  alert.
\<close>

theorem alert_lifecycle:
  "let s = foldl alert_step no_alerts ops in
     length (activeAlerts s) \<le> 50 \<and>
     (\<forall>now1 rnd now2 req. \<exists>a.
        a = \<lparr> atype = atype req, severity = severity req, title = title req,
              message = message req, eventId = eventId req,
              alert_id = decimal now1 @ ''-'' @ rnd, timestamp = now2, dismissed = False \<rparr> \<and>
        addAlert now1 rnd now2 req s =
          (a, \<lparr> activeAlerts = take 50 (a # activeAlerts s),
                timers = timers s @
                  (case severity req of
                     Critical \<Rightarrow> []
                   | Warning \<Rightarrow> [(60000, alert_id a)]
                   | Info \<Rightarrow> [(30000, alert_id a)]) \<rparr>)) \<and>
     (\<forall>k < length (timers s).
        activeAlerts (timerFires k s) = dismissAlert (snd (timers s ! k)) (activeAlerts s)) \<and>
     undismissedAlerts (activeAlerts s) = filter (\<lambda>a. \<not> dismissed a) (activeAlerts s) \<and>
     (ids_fresh no_alerts ops \<longrightarrow>
        distinct (map alert_id (activeAlerts s)) \<and>
        (\<forall>k. \<forall>j < length (activeAlerts s).
           severity (activeAlerts s ! j) = Critical \<longrightarrow>
           activeAlerts (timerFires k s) ! j = activeAlerts s ! j))"
proof -
  define s where "s = foldl alert_step no_alerts ops"
  have "length (activeAlerts no_alerts) \<le> 50"
    by (simp add: no_alerts_def)
  then have cap: "length (activeAlerts s) \<le> 50"
    unfolding s_def by (rule length_run)
  have add: "\<forall>now1 rnd now2 req. \<exists>a.
        a = \<lparr> atype = atype req, severity = severity req, title = title req,
              message = message req, eventId = eventId req,
              alert_id = decimal now1 @ ''-'' @ rnd, timestamp = now2, dismissed = False \<rparr> \<and>
        addAlert now1 rnd now2 req s =
          (a, \<lparr> activeAlerts = take 50 (a # activeAlerts s),
                timers = timers s @
                  (case severity req of
                     Critical \<Rightarrow> []
                   | Warning \<Rightarrow> [(60000, alert_id a)]
                   | Info \<Rightarrow> [(30000, alert_id a)]) \<rparr>)"
  proof (intro allI)
    fix now1 rnd now2 req
    show "\<exists>a.
        a = \<lparr> atype = atype req, severity = severity req, title = title req,
              message = message req, eventId = eventId req,
              alert_id = decimal now1 @ ''-'' @ rnd, timestamp = now2, dismissed = False \<rparr> \<and>
        addAlert now1 rnd now2 req s =
          (a, \<lparr> activeAlerts = take 50 (a # activeAlerts s),
                timers = timers s @
                  (case severity req of
                     Critical \<Rightarrow> []
                   | Warning \<Rightarrow> [(60000, alert_id a)]
                   | Info \<Rightarrow> [(30000, alert_id a)]) \<rparr>)"
      by (cases "severity req") (simp_all add: addAlert_effect)
  qed
  have fire: "\<forall>k < length (timers s).
        activeAlerts (timerFires k s) = dismissAlert (snd (timers s ! k)) (activeAlerts s)"
    by (simp add: timerFires_def)
  have visible: "undismissedAlerts (activeAlerts s) = filter (\<lambda>a. \<not> dismissed a) (activeAlerts s)"
    by (simp add: undismissedAlerts_def)
  have fresh: "ids_fresh no_alerts ops \<longrightarrow>
        distinct (map alert_id (activeAlerts s)) \<and>
        (\<forall>k. \<forall>j < length (activeAlerts s).
           severity (activeAlerts s ! j) = Critical \<longrightarrow>
           activeAlerts (timerFires k s) ! j = activeAlerts s ! j)"
  proof
    assume run: "ids_fresh no_alerts ops"
    have "alerts_inv no_alerts"
      by (simp add: alerts_inv_def spare_no_alerts) (simp add: no_alerts_def)
    with run have inv: "alerts_inv s"
      unfolding s_def by (intro alerts_inv_run)
    then have spare: "timers_spare_critical s"
      by (simp add: alerts_inv_def)
    have critical: "\<forall>k. \<forall>j < length (activeAlerts s).
          severity (activeAlerts s ! j) = Critical \<longrightarrow>
          activeAlerts (timerFires k s) ! j = activeAlerts s ! j"
    proof
      fix k
      show "\<forall>j < length (activeAlerts s).
          severity (activeAlerts s ! j) = Critical \<longrightarrow>
          activeAlerts (timerFires k s) ! j = activeAlerts s ! j"
        using spare by (rule timerFires_keeps_critical)
    qed
    from inv have "distinct (map alert_id (activeAlerts s))"
      by (simp add: alerts_inv_def)
    with critical show "distinct (map alert_id (activeAlerts s)) \<and>
        (\<forall>k. \<forall>j < length (activeAlerts s).
           severity (activeAlerts s ! j) = Critical \<longrightarrow>
           activeAlerts (timerFires k s) ! j = activeAlerts s ! j)"
      by (intro conjI)
  qed
  from cap add fire visible fresh show ?thesis
    unfolding Let_def s_def [symmetric] by (intro conjI)
qed

theorem alert_lifecycle_witness:
  "map dismissed (activeAlerts (foldl alert_step no_alerts
      [Add 1700 ''k3x9q2a'' 1700 info_request, Add 1701 ''b7m2p0z'' 1701 critical_request,
       TimerFires 0])) = [False, True] \<and>
   distinct (map alert_id (activeAlerts (foldl alert_step no_alerts
      [Add 1700 ''k3x9q2a'' 1700 info_request, Add 1701 ''b7m2p0z'' 1701 critical_request,
       TimerFires 0]))) \<and>
   length (activeAlerts (foldl alert_step no_alerts
      [Add 1700 ''k3x9q2a'' 1700 info_request, Add 1700 ''k3x9q2a'' 1700 critical_request,
       TimerFires 0])) \<le> 50"
proof -
  have fresh: "ids_fresh no_alerts
      [Add 1700 ''k3x9q2a'' 1700 info_request, Add 1701 ''b7m2p0z'' 1701 critical_request,
       TimerFires 0]"
    by (simp add: id_unused_def addAlert_effect new_alert_id_def decimal_1700 decimal_1701
        no_alerts_def info_request_def critical_request_def)
  have run: "map dismissed (activeAlerts (foldl alert_step no_alerts
      [Add 1700 ''k3x9q2a'' 1700 info_request, Add 1701 ''b7m2p0z'' 1701 critical_request,
       TimerFires 0])) = [False, True]"
    by (simp add: addAlert_effect decimal_1700 decimal_1701 no_alerts_def
        info_request_def critical_request_def timerFires_def dismissAlert_def)
  from alert_lifecycle [of "[Add 1700 ''k3x9q2a'' 1700 info_request,
      Add 1701 ''b7m2p0z'' 1701 critical_request, TimerFires 0]"] fresh
  have unique: "distinct (map alert_id (activeAlerts (foldl alert_step no_alerts
      [Add 1700 ''k3x9q2a'' 1700 info_request, Add 1701 ''b7m2p0z'' 1701 critical_request,
       TimerFires 0])))"
    unfolding Let_def by blast
  from alert_lifecycle [of "[Add 1700 ''k3x9q2a'' 1700 info_request,
      Add 1700 ''k3x9q2a'' 1700 critical_request, TimerFires 0]"]
  have reused: "length (activeAlerts (foldl alert_step no_alerts
      [Add 1700 ''k3x9q2a'' 1700 info_request, Add 1700 ''k3x9q2a'' 1700 critical_request,
       TimerFires 0])) \<le> 50"
    unfolding Let_def by blast
  from run unique reused show ?thesis
    by (intro conjI)
qed

text \<open>
  Claim C7 as stated fails when the clock and the random draw repeat: an info alert
  and a critical alert added with the same readings share one id, and the info
  alert's callback then dismisses the critical alert as well.
\<close>

theorem alert_id_collision_counterexample:
  "let s1 = snd (addAlert 1700 ''k3x9q2a'' 1700 info_request no_alerts);
       s2 = snd (addAlert 1700 ''k3x9q2a'' 1700 critical_request s1);
       s3 = timerFires 0 s2
   in map alert_id (activeAlerts s2) = [''1700-k3x9q2a'', ''1700-k3x9q2a''] \<and>
      map severity (activeAlerts s3) = [Critical, Info] \<and>
      map dismissed (activeAlerts s2) = [False, False] \<and>
      map dismissed (activeAlerts s3) = [True, True]"
  by (simp add: addAlert_effect decimal_1700 no_alerts_def info_request_def
      critical_request_def timerFires_def dismissAlert_def Let_def)

section \<open>Dismissal\<close>

text \<open>
  Claim C10.  \<open>dismissAlert\<close> keeps the length and the order of the list; the alert at
  each position is the old one, with \<open>dismissed\<close> set to true when its id is the given
  one and untouched otherwise, so every other field of every alert is preserved; when
  no alert carries the id the list is unchanged; when every alert carrying the id is
  already dismissed the list is unchanged; and dismissing twice equals dismissing once.
\<close>

theorem dismissAlert_frame:
  "length (dismissAlert i prev) = length prev \<and>
   (\<forall>k < length prev.
      dismissAlert i prev ! k =
        (if alert_id (prev ! k) = i then (prev ! k)\<lparr>dismissed := True\<rparr> else prev ! k)) \<and>
   map alert_request.truncate (dismissAlert i prev) = map alert_request.truncate prev \<and>
   map alert_id (dismissAlert i prev) = map alert_id prev \<and>
   map timestamp (dismissAlert i prev) = map timestamp prev \<and>
   ((\<forall>a \<in> set prev. alert_id a \<noteq> i) \<longrightarrow> dismissAlert i prev = prev) \<and>
   ((\<forall>a \<in> set prev. alert_id a = i \<longrightarrow> dismissed a) \<longrightarrow> dismissAlert i prev = prev) \<and>
   dismissAlert i (dismissAlert i prev) = dismissAlert i prev"
proof -
  have fields: "map alert_request.truncate (dismissAlert i prev) = map alert_request.truncate prev"
    by (simp add: dismissAlert_def alert_request.truncate_def)
  have absent: "(\<forall>a \<in> set prev. alert_id a \<noteq> i) \<longrightarrow> dismissAlert i prev = prev"
    by (simp add: dismissAlert_def map_idI)
  have already: "(\<forall>a \<in> set prev. alert_id a = i \<longrightarrow> dismissed a) \<longrightarrow> dismissAlert i prev = prev"
    by (auto simp: dismissAlert_def intro!: map_idI)
  have twice: "dismissAlert i (dismissAlert i prev) = dismissAlert i prev"
    by (simp add: dismissAlert_def)
  show ?thesis
    using fields absent already twice
    by (simp add: dismissAlert_def comp_def)
qed

theorem dismissAlert_frame_witness:
  "dismissAlert ''1701-b7m2p0z'' [shown_alert] = [shown_alert] \<and>
   dismissAlert ''1700-k3x9q2a'' [shown_alert] = [shown_alert\<lparr>dismissed := True\<rparr>]"
proof -
  have other: "\<forall>a \<in> set [shown_alert]. alert_id a \<noteq> ''1701-b7m2p0z''"
    by (simp add: shown_alert_def)
  from dismissAlert_frame [of "''1701-b7m2p0z''" "[shown_alert]"] other
  have unchanged: "dismissAlert ''1701-b7m2p0z'' [shown_alert] = [shown_alert]"
    by blast
  from dismissAlert_frame [of "''1700-k3x9q2a''" "[shown_alert]"]
  have "length (dismissAlert ''1700-k3x9q2a'' [shown_alert]) = length [shown_alert]"
    and "\<forall>k < length [shown_alert]. dismissAlert ''1700-k3x9q2a'' [shown_alert] ! k =
          (if alert_id ([shown_alert] ! k) = ''1700-k3x9q2a''
           then ([shown_alert] ! k)\<lparr>dismissed := True\<rparr> else [shown_alert] ! k)"
    by blast+
  then have "dismissAlert ''1700-k3x9q2a'' [shown_alert] = [shown_alert\<lparr>dismissed := True\<rparr>]"
    by (simp add: list_eq_iff_nth_eq shown_alert_def)
  with unchanged show ?thesis
    by simp
qed

section \<open>Fetching with retry\<close>







section \<open>Polling after a failure\<close>

lemma poll_delta_failure_keeps_state:
  "pollTick (Inl err) getEvents now s = s \<and>
   pollingActive (pollTick (Inl err) getEvents now s) = pollingActive s"
  by (simp add: pollTick_def checkForUpdates_def)

lemma poll_keeps_events_on_failure:
  "st_events (pollTick getDelta (Inl err) now s) = st_events s"
  by (simp add: pollTick_def checkForUpdates_def Let_def split: sum.split)

text \<open>
  Claim C9, at inputs where the code departs from it.  When the initial load gets the
  events but its fetch of the version token fails, the events are cached, no token is
  stored, and the interval is never installed: no later poll does anything.  The same
  holds when the initial fetch of the events fails.  And in a running driver with the
  token \<open>h1\<close>, a poll that sees the new token \<open>h2\<close> and then fails to fetch the
  events keeps the cached events but has already stored \<open>h2\<close>: the next poll sees
  \<open>h2\<close> again and fetches nothing, although the source would now answer.
\<close>

theorem failed_fetch_stalls_polling:
  "let loaded = init (Inr [zone_nearby]) (Inl (Error ''Failed to fetch'')) 1000 initial_fire_state;
       failed = init (Inl (Error ''Failed to fetch'')) (Inr \<lparr> delta_lastHash = ''h1'' \<rparr>) 1000
                  initial_fire_state;
       s1 = pollTick (Inr \<lparr> delta_lastHash = ''h2'' \<rparr>)
              (Inl (Error ''HTTP 503: Service Unavailable'')) 2000 cached_state;
       s2 = pollTick (Inr \<lparr> delta_lastHash = ''h2'' \<rparr>) (Inr [zone_far]) 3000 s1
   in st_events loaded = [zone_nearby] \<and> st_lastHash loaded = None \<and>
      \<not> pollingActive loaded \<and>
      (\<forall>getDelta getEvents now. pollTick getDelta getEvents now loaded = loaded) \<and>
      st_error failed = Some ''Failed to fetch'' \<and> \<not> pollingActive failed \<and>
      (\<forall>getDelta getEvents now. pollTick getDelta getEvents now failed = failed) \<and>
      st_events s1 = st_events cached_state \<and>
      st_lastHash cached_state = Some ''h1'' \<and> st_lastHash s1 = Some ''h2'' \<and>
      pollingActive s1 \<and> s2 = s1 \<and> st_events s2 = [zone_nearby]"
  by (simp add: pollTick_def checkForUpdates_def pollingActive_def cached_state_def init_def
      initial_fire_state_def Let_def)

end
